theory Spec2Isabelle
  imports Complex_Main
begin

section \<open>Flight data replay: sample store, timestamp index, timeline mapper, scheduler\<close>

text \<open>
  A shallow embedding of the replay backend: \<^verbatim>\<open>data_processor.py\<close> (the sample
  store and its nearest-timestamp lookup), \<^verbatim>\<open>video_timestamp_mapper.py\<close> (the
  correspondence table between flight-data time and video time) and the playback
  handlers and loop of \<^verbatim>\<open>app.py\<close>.

  Python integers are \<open>int\<close>, Python floats are idealised as \<open>real\<close>, exceptions are
  values of the type \<open>error\<close> returned on the left of a sum.
\<close>

subsection \<open>Exceptions\<close>

datatype error = TypeError | KeyError | IndexError | AttributeError | ZeroDivisionError | ValueError

subsection \<open>The library function \<^verbatim>\<open>bisect.bisect_left\<close>\<close>

text \<open>
  \<^verbatim>\<open>
  def bisect_left(a, x, lo=0, hi=None):
      if hi is None: hi = len(a)
      while lo < hi:
          mid = (lo + hi) // 2
          if a[mid] < x: lo = mid + 1
          else: hi = mid
      return lo
  \<close>
  The loop is modelled with its two bounds as arguments; the measure \<open>hi - lo\<close> decreases.
\<close>

function bisect_left_from :: "('a::linorder) list \<Rightarrow> 'a \<Rightarrow> nat \<Rightarrow> nat \<Rightarrow> nat" where
  "bisect_left_from a x lo hi =
     (if lo < hi then
        (let mid = (lo + hi) div 2 in
         if a ! mid < x then bisect_left_from a x (mid + 1) hi
         else bisect_left_from a x lo mid)
      else lo)"
  by pat_completeness auto
termination
  by (relation "measure (\<lambda>(a, x, lo, hi). hi - lo)") auto

declare bisect_left_from.simps [simp del]

definition bisect_left :: "('a::linorder) list \<Rightarrow> 'a \<Rightarrow> nat" where
  "bisect_left a x = bisect_left_from a x 0 (length a)"

subsection \<open>The sample store (\<^verbatim>\<open>FlightDataProcessor\<close>)\<close>

text \<open>
  One element of \<^verbatim>\<open>data_list\<close>: the index value \<^verbatim>\<open>idx\<close> of the row (a pandas
  Timedelta, kept here as its \<^verbatim>\<open>.value\<close> in nanoseconds) and the columns that
  \<^verbatim>\<open>get_data_at_index\<close> reads. The column \<^verbatim>\<open>mode\<close> may be absent.
\<close>

record row =
  idx_value :: int
  x_helmet :: real
  y_helmet :: real
  z_helmet :: real
  w_helmet :: real
  x_vehicle :: real
  y_vehicle :: real
  z_vehicle :: real
  w_vehicle :: real
  north :: real
  east :: real
  down :: real
  lat :: real
  lon :: real
  alt :: real
  mode :: "int option"

text \<open>
  \<^verbatim>\<open>timestamp_ns_list = [idx.value for idx, _ in self.data_list]\<close>, computed at load
  time and again by the fallback inside \<^verbatim>\<open>find_index_for_timestamp\<close>.
\<close>

definition timestamp_ns_list :: "row list \<Rightarrow> int list" where
  "timestamp_ns_list data_list = map idx_value data_list"

definition get_data_count :: "row list \<Rightarrow> nat" where
  "get_data_count data_list = length data_list"

text \<open>
  \<^verbatim>\<open>find_index_for_timestamp\<close>, from the point where the target has been converted to
  nanoseconds (\<^verbatim>\<open>target_ns = pd.to_timedelta(timestamp_seconds, unit='s').value\<close>; the
  conversion is pandas' floating-point code and is not part of the embedding).
  \<open>None\<close> is Python's \<^verbatim>\<open>None\<close>.
\<close>

definition find_index_for_timestamp :: "row list \<Rightarrow> int \<Rightarrow> nat option" where
  "find_index_for_timestamp data_list target_ns =
     (if data_list = [] then None
      else
        (let ts = timestamp_ns_list data_list;
             idx = bisect_left ts target_ns
         in if idx = 0 then Some 0
            else if idx \<ge> length ts then Some (length ts - 1)
            else
              (let prev_diff = \<bar>ts ! (idx - 1) - target_ns\<bar>;
                   next_diff = \<bar>ts ! idx - target_ns\<bar>
               in if prev_diff < next_diff then Some (idx - 1) else Some idx)))"

subsection \<open>Rotations (\<^verbatim>\<open>scipy.spatial.transform.Rotation\<close>)\<close>

text \<open>
  A rotation is held as a quaternion in scalar-last order \<open>(x, y, z, w)\<close>.
  \<^verbatim>\<open>Rotation.from_quat\<close> divides by the Euclidean norm and raises \<^verbatim>\<open>ValueError\<close> on a
  zero quaternion; \<^verbatim>\<open>p * q\<close> is the quaternion product of \<open>p\<close> and \<open>q\<close> in this order,
  normalised again; \<^verbatim>\<open>as_quat\<close> returns the stored quaternion.
\<close>

record quat =
  qx :: real
  qy :: real
  qz :: real
  qw :: real


definition quat_norm :: "quat \<Rightarrow> real" where
  "quat_norm q = sqrt ((qx q)\<^sup>2 + (qy q)\<^sup>2 + (qz q)\<^sup>2 + (qw q)\<^sup>2)"

definition from_quat :: "quat \<Rightarrow> error + quat" where
  "from_quat q =
     (if quat_norm q = 0 then Inl ValueError
      else Inr \<lparr>qx = qx q / quat_norm q, qy = qy q / quat_norm q,
                qz = qz q / quat_norm q, qw = qw q / quat_norm q\<rparr>)"

definition compose_quat :: "quat \<Rightarrow> quat \<Rightarrow> quat" where
  "compose_quat p q =
     \<lparr>qx = qw p * qx q + qw q * qx p + (qy p * qz q - qz p * qy q),
      qy = qw p * qy q + qw q * qy p + (qz p * qx q - qx p * qz q),
      qz = qw p * qz q + qw q * qz p + (qx p * qy q - qy p * qx q),
      qw = qw p * qw q - (qx p * qx q + qy p * qy q + qz p * qz q)\<rparr>"

definition rotation_mul :: "quat \<Rightarrow> quat \<Rightarrow> error + quat" where
  "rotation_mul p q = from_quat (compose_quat p q)"

subsection \<open>\<^verbatim>\<open>get_data_at_index\<close>\<close>

text \<open>The dictionary that \<^verbatim>\<open>get_data_at_index\<close> returns, one field per key.\<close>

record frame =
  index :: int
  timestamp_seconds :: real
  timestamp_ns :: int
  VQX :: real
  VQY :: real
  VQZ :: real
  VQW :: real
  HQX :: real
  HQY :: real
  HQZ :: real
  HQW :: real
  VLAT :: real
  VLON :: real
  VALT :: real
  VVN :: real
  VVE :: real
  VVD :: real
  VINS :: int
  GSPEED :: real

definition helmet_raw :: "row \<Rightarrow> quat" where
  "helmet_raw r = \<lparr>qx = x_helmet r, qy = y_helmet r, qz = z_helmet r, qw = w_helmet r\<rparr>"

definition vehicle_raw :: "row \<Rightarrow> quat" where
  "vehicle_raw r = \<lparr>qx = x_vehicle r, qy = y_vehicle r, qz = z_vehicle r, qw = w_vehicle r\<rparr>"

text \<open>
  \<^verbatim>\<open>timestamp.total_seconds()\<close> is the nanosecond value divided by \<open>10\<^sup>9\<close>. The result is
  \<open>Inr None\<close> for an index out of range, \<open>Inl ValueError\<close> when a raw quaternion is zero.
\<close>

definition get_data_at_index :: "row list \<Rightarrow> int \<Rightarrow> error + frame option" where
  "get_data_at_index data_list i =
     (if i < 0 \<or> i \<ge> int (length data_list) then Inr None
      else
        (let r = data_list ! nat i in
         case from_quat (helmet_raw r) of Inl e \<Rightarrow> Inl e | Inr helmet_corrected \<Rightarrow>
         (case from_quat (vehicle_raw r) of Inl e \<Rightarrow> Inl e | Inr vehicle_world \<Rightarrow>
         (case rotation_mul vehicle_world helmet_corrected of Inl e \<Rightarrow> Inl e | Inr helmet_world \<Rightarrow>
            Inr (Some
              \<lparr>index = i,
               timestamp_seconds = real_of_int (idx_value r) / 10 ^ 9,
               timestamp_ns = idx_value r,
               VQX = qx vehicle_world, VQY = qy vehicle_world,
               VQZ = qz vehicle_world, VQW = qw vehicle_world,
               HQX = qx helmet_world, HQY = qy helmet_world,
               HQZ = qz helmet_world, HQW = qw helmet_world,
               VLAT = lat r, VLON = lon r, VALT = alt r,
               VVN = north r, VVE = east r, VVD = down r,
               VINS = (case mode r of Some v \<Rightarrow> v | None \<Rightarrow> 0),
               GSPEED = sqrt ((north r)\<^sup>2 + (east r)\<^sup>2 + (down r)\<^sup>2)\<rparr>)))))"



text \<open>A row at rest with both raw quaternions the identity, used for concrete stores.\<close>

definition still_row :: "int \<Rightarrow> row" where
  "still_row t =
     \<lparr>idx_value = t, x_helmet = 0, y_helmet = 0, z_helmet = 0, w_helmet = 1,
      x_vehicle = 0, y_vehicle = 0, z_vehicle = 0, w_vehicle = 1,
      north = 0, east = 0, down = 0, lat = 0, lon = 0, alt = 0, mode = None\<rparr>"

subsection \<open>Playback state and control handlers (\<^verbatim>\<open>app.py\<close>)\<close>

text \<open>
  The module-level variables that the handlers and the loop share. \<open>processor\<close> is the
  loaded \<^verbatim>\<open>data_list\<close>, or \<open>None\<close> before initialisation; \<open>udp_socket\<close> tells whether the
  datagram socket could be created.
\<close>

record playback_state =
  processor :: "row list option"
  playback_active :: bool
  playback_index :: int
  playback_speed :: real
  udp_socket :: bool

text \<open>
  The payload of a control message: the keys \<^verbatim>\<open>index\<close> and \<^verbatim>\<open>speed\<close>, each possibly
  absent.
\<close>

record control_data =
  data_index :: "int option"
  data_speed :: "real option"

text \<open>
  \<^verbatim>\<open>handle_start_playback\<close>: nothing changes while the processor is \<^verbatim>\<open>None\<close>; otherwise
  the index is taken when given, playback becomes active and the speed is
  \<^verbatim>\<open>min(requested_speed, 2.0)\<close> with the default request 2.0. The handler also starts
  the loop's thread when none is alive; the loop is modelled below, pass by pass.
\<close>

definition handle_start_playback :: "control_data \<Rightarrow> playback_state \<Rightarrow> playback_state" where
  "handle_start_playback d s =
     (if processor s = None then s
      else
        (let s1 = (case data_index d of Some i \<Rightarrow> s\<lparr>playback_index := i\<rparr> | None \<Rightarrow> s);
             requested_speed = (case data_speed d of Some v \<Rightarrow> v | None \<Rightarrow> 2.0)
         in s1\<lparr>playback_active := True, playback_speed := min requested_speed 2.0\<rparr>))"

definition handle_pause_playback :: "playback_state \<Rightarrow> playback_state" where
  "handle_pause_playback s = s\<lparr>playback_active := False\<rparr>"

text \<open>\<^verbatim>\<open>handle_set_speed\<close>: \<^verbatim>\<open>min(requested_speed, 2.0)\<close> with the default request 1.0.\<close>

definition handle_set_speed :: "control_data \<Rightarrow> playback_state \<Rightarrow> playback_state" where
  "handle_set_speed d s =
     (let requested_speed = (case data_speed d of Some v \<Rightarrow> v | None \<Rightarrow> 1.0)
      in s\<lparr>playback_speed := min requested_speed 2.0\<rparr>)"

text \<open>\<^verbatim>\<open>handle_seek\<close>: only \<^verbatim>\<open>playback_index\<close> is written (default 0).\<close>

definition handle_seek :: "control_data \<Rightarrow> playback_state \<Rightarrow> playback_state" where
  "handle_seek d s = s\<lparr>playback_index := (case data_index d of Some i \<Rightarrow> i | None \<Rightarrow> 0)\<rparr>"

subsection \<open>The playback loop\<close>

text \<open>Python's \<^verbatim>\<open>/\<close> on numbers raises on a zero divisor.\<close>

definition py_truediv :: "real \<Rightarrow> real \<Rightarrow> error + real" where
  "py_truediv a b = (if b = 0 then Inl ZeroDivisionError else Inr (a / b))"

text \<open>
  The computation of \<^verbatim>\<open>sleep_time\<close> for a frame with timestamp \<open>current_timestamp\<close>
  (seconds), given the loop's \<^verbatim>\<open>last_timestamp\<close>. The frame's timestamp is always
  present, so only \<^verbatim>\<open>last_timestamp\<close> can be \<^verbatim>\<open>None\<close>.
\<close>

definition sleep_time :: "real \<Rightarrow> real option \<Rightarrow> real \<Rightarrow> error + real" where
  "sleep_time speed last_timestamp current_timestamp =
     (case last_timestamp of
        None \<Rightarrow> py_truediv 0.01 speed
      | Some l \<Rightarrow>
          (let timestamp_diff = current_timestamp - l in
           if timestamp_diff < 0 then py_truediv 0.01 speed
           else if timestamp_diff > 10 then py_truediv 0.01 speed
           else if timestamp_diff = 0 then py_truediv 0.001 speed
           else (case py_truediv timestamp_diff speed of
                   Inl e \<Rightarrow> Inl e
                 | Inr t \<Rightarrow> Inr (max 0.001 (min 0.1 t)))))"

text \<open>
  What one pass through the body of \<^verbatim>\<open>while True\<close> sends, and how it ends: with a sleep
  before the next pass, or with \<^verbatim>\<open>break\<close>.
\<close>

datatype event = Frame_update frame | Udp_godot frame | Godot_data frame | Playback_finished

datatype control = Sleep real | Break

text \<open>
  The state of the loop: the shared variables, the local \<^verbatim>\<open>last_timestamp\<close> and the
  messages sent so far.
\<close>

record loop_state =
  shared :: playback_state
  last_timestamp :: "real option"
  sent :: "event list"

text \<open>
  One pass of the loop. The assignments \<^verbatim>\<open>last_timestamp = None\<close> in the two jump
  branches are overwritten by \<^verbatim>\<open>last_timestamp = current_timestamp\<close> before the pass
  ends, so the pass always leaves the current timestamp there. An exception leaves the
  loop (and ends its thread). Handlers run between passes, so \<^verbatim>\<open>playback_active\<close> still
  holds when the pass reaches the last message.
\<close>

definition playback_pass :: "loop_state \<Rightarrow> error + (loop_state \<times> control)" where
  "playback_pass ls =
     (let g = shared ls in
      if \<not> playback_active g then Inr (ls, Sleep 0.1)
      else
        (case processor g of
           None \<Rightarrow> Inr (ls, Break)
         | Some data_list \<Rightarrow>
             if playback_index g \<ge> int (get_data_count data_list) then
               Inr (ls\<lparr>shared := g\<lparr>playback_active := False\<rparr>,
                       sent := sent ls @ [Playback_finished]\<rparr>, Break)
             else
               (case get_data_at_index data_list (playback_index g) of
                  Inl e \<Rightarrow> Inl e
                | Inr None \<Rightarrow>
                    (case py_truediv 0.01 (playback_speed g) of
                       Inl e \<Rightarrow> Inl e
                     | Inr t \<Rightarrow>
                         Inr (ls\<lparr>shared := g\<lparr>playback_index := playback_index g + 1\<rparr>\<rparr>,
                              Sleep t))
                | Inr (Some d) \<Rightarrow>
                    (case sleep_time (playback_speed g) (last_timestamp ls) (timestamp_seconds d) of
                       Inl e \<Rightarrow> Inl e
                     | Inr t \<Rightarrow>
                         Inr (ls\<lparr>shared := g\<lparr>playback_index := playback_index g + 1\<rparr>,
                                 last_timestamp := Some (timestamp_seconds d),
                                 sent := sent ls @ [Frame_update d]
                                           @ (if udp_socket g then [Udp_godot d] else [])
                                           @ [Godot_data d]\<rparr>,
                              Sleep t)))))"

text \<open>
  A store of four samples 20 ms apart, a running playback over it at speed 1, and the
  loop as it starts.
\<close>

definition four_rows :: "row list" where
  "four_rows = [still_row 0, still_row 20000000, still_row 40000000, still_row 60000000]"

definition running_state :: playback_state where
  "running_state =
     \<lparr>processor = Some four_rows, playback_active = True, playback_index = 0,
      playback_speed = 1, udp_socket = False\<rparr>"

definition loop_start :: loop_state where
  "loop_start = \<lparr>shared = running_state, last_timestamp = None, sent = []\<rparr>"

subsection \<open>Values read from the mapping file\<close>

text \<open>
  The values that \<^verbatim>\<open>json.load\<close> can put under a key of an entry: a number, a string or
  \<^verbatim>\<open>None\<close> (JSON \<^verbatim>\<open>null\<close>). Booleans behave as the numbers 0 and 1; nested arrays and
  objects are left out. Python's \<^verbatim>\<open><\<close> orders numbers with numbers and strings with
  strings (by code point) and raises \<^verbatim>\<open>TypeError\<close> on every other pair; \<^verbatim>\<open>==\<close> never
  raises.
\<close>

datatype pyval = Num real | Str string | NoneV

fun str_lt :: "string \<Rightarrow> string \<Rightarrow> bool" where
  "str_lt [] [] = False"
| "str_lt [] (y # ys) = True"
| "str_lt (x # xs) [] = False"
| "str_lt (x # xs) (y # ys) =
     (if (of_char x :: nat) < of_char y then True
      else if (of_char y :: nat) < of_char x then False
      else str_lt xs ys)"

fun py_lt :: "pyval \<Rightarrow> pyval \<Rightarrow> error + bool" where
  "py_lt (Num a) (Num b) = Inr (a < b)"
| "py_lt (Str a) (Str b) = Inr (str_lt a b)"
| "py_lt _ _ = Inl TypeError"

text \<open>
  Tuples compare by their first differing component; equal tuples are not less, and
  no component is compared with \<^verbatim>\<open><\<close> then.
\<close>

fun py_lt_tuple :: "pyval \<times> pyval \<Rightarrow> pyval \<times> pyval \<Rightarrow> error + bool" where
  "py_lt_tuple (a, b) (c, d) =
     (if a \<noteq> c then py_lt a c else if b \<noteq> d then py_lt b d else Inr False)"

text \<open>Binary minus is defined on two numbers only, and so is a number added on the right.\<close>

fun py_sub :: "pyval \<Rightarrow> pyval \<Rightarrow> error + real" where
  "py_sub (Num a) (Num b) = Inr (a - b)"
| "py_sub _ _ = Inl TypeError"

fun py_add :: "pyval \<Rightarrow> real \<Rightarrow> error + pyval" where
  "py_add (Num a) b = Inr (Num (a + b))"
| "py_add _ _ = Inl TypeError"

text \<open>Indexing with a non-negative index, and with \<^verbatim>\<open>-1\<close>.\<close>

definition py_nth :: "'a list \<Rightarrow> nat \<Rightarrow> error + 'a" where
  "py_nth xs i = (if i < length xs then Inr (xs ! i) else Inl IndexError)"

definition py_last :: "'a list \<Rightarrow> error + 'a" where
  "py_last xs = (if xs = [] then Inl IndexError else Inr (last xs))"

subsection \<open>The built-in \<^verbatim>\<open>sorted\<close>\<close>

text \<open>
  \<^verbatim>\<open>sorted\<close> is a stable sort that uses \<^verbatim>\<open><\<close> only and raises what a comparison raises.
  Which pairs it compares is its own business. The model raises \<^verbatim>\<open>TypeError\<close> when some
  pair of elements cannot be compared and otherwise returns the stable insertion sort;
  this is what Python does on every list whose elements are pairwise comparable, and on
  every list of at most two elements (no comparison for fewer than two, exactly one for
  two).
\<close>

fun insort_by :: "('a \<Rightarrow> 'a \<Rightarrow> bool) \<Rightarrow> 'a \<Rightarrow> 'a list \<Rightarrow> 'a list" where
  "insort_by lt x [] = [x]"
| "insort_by lt x (y # ys) = (if lt y x then y # insort_by lt x ys else x # y # ys)"

definition sort_by :: "('a \<Rightarrow> 'a \<Rightarrow> bool) \<Rightarrow> 'a list \<Rightarrow> 'a list" where
  "sort_by lt xs = foldr (insort_by lt) xs []"

fun comparable :: "('a \<Rightarrow> 'a \<Rightarrow> error + bool) \<Rightarrow> 'a list \<Rightarrow> bool" where
  "comparable lt [] = True"
| "comparable lt (x # xs) = (list_all (\<lambda>y. \<not> isl (lt y x)) xs \<and> comparable lt xs)"

definition py_sorted :: "('a \<Rightarrow> 'a \<Rightarrow> error + bool) \<Rightarrow> 'a list \<Rightarrow> error + 'a list" where
  "py_sorted lt xs =
     (if comparable lt xs then Inr (sort_by (\<lambda>x y. lt x y = Inr True) xs)
      else Inl TypeError)"

subsection \<open>\<^verbatim>\<open>bisect_left\<close> on values read from the file\<close>

function py_bisect_left_from :: "pyval list \<Rightarrow> pyval \<Rightarrow> nat \<Rightarrow> nat \<Rightarrow> error + nat" where
  "py_bisect_left_from a x lo hi =
     (if lo < hi then
        (let mid = (lo + hi) div 2 in
         case py_lt (a ! mid) x of
           Inl e \<Rightarrow> Inl e
         | Inr b \<Rightarrow> if b then py_bisect_left_from a x (mid + 1) hi
                    else py_bisect_left_from a x lo mid)
      else Inr lo)"
  by pat_completeness auto
termination
  by (relation "measure (\<lambda>(a, x, lo, hi). hi - lo)") auto

declare py_bisect_left_from.simps [simp del]

definition py_bisect_left :: "pyval list \<Rightarrow> pyval \<Rightarrow> error + nat" where
  "py_bisect_left a x = py_bisect_left_from a x 0 (length a)"

subsection \<open>The timeline mapper (\<^verbatim>\<open>VideoTimestampMapper\<close>)\<close>

text \<open>
  The attributes of a mapper. The last three are set only at the end of a successful
  \<^verbatim>\<open>load_mapping\<close>; \<open>None\<close> means that the attribute does not exist.
\<close>

record mapper =
  timestamps :: "(pyval \<times> pyval) list"
  data_timestamps :: "pyval list"
  video_times :: "pyval list"
  timestamps_by_video :: "(pyval \<times> pyval) list option"
  video_times_sorted :: "pyval list option"
  data_timestamps_by_video :: "pyval list option"

text \<open>
  What \<^verbatim>\<open>load_mapping\<close> can find: no file at the path (or no path); a file for which
  \<^verbatim>\<open>open\<close> or \<^verbatim>\<open>json.load\<close> raises, or whose document is not a list of objects, so that
  reading the first entry raises; or a list of objects, each a dictionary from keys to
  values.
\<close>

type_synonym entry = "string \<rightharpoonup> pyval"

datatype json_source = NoFile | BadFile | Entries "entry list"

text \<open>
  \<^verbatim>\<open>[(entry['data_timestamp'], entry['video_time']) for entry in mapping]\<close>: a missing
  key raises \<^verbatim>\<open>KeyError\<close>.
\<close>

fun read_entries :: "entry list \<Rightarrow> error + (pyval \<times> pyval) list" where
  "read_entries [] = Inr []"
| "read_entries (e # es) =
     (case e ''data_timestamp'' of
        None \<Rightarrow> Inl KeyError
      | Some d \<Rightarrow>
          (case e ''video_time'' of
             None \<Rightarrow> Inl KeyError
           | Some v \<Rightarrow>
               (case read_entries es of
                  Inl err \<Rightarrow> Inl err
                | Inr rest \<Rightarrow> Inr ((d, v) # rest))))"

definition empty_mapper :: mapper where
  "empty_mapper =
     \<lparr>timestamps = [], data_timestamps = [], video_times = [],
      timestamps_by_video = None, video_times_sorted = None,
      data_timestamps_by_video = None\<rparr>"

text \<open>
  \<^verbatim>\<open>load_mapping\<close> returns the mapper as the \<^verbatim>\<open>try\<close> block left it, with \<^verbatim>\<open>True\<close> at its end
  and \<^verbatim>\<open>False\<close> from the \<^verbatim>\<open>except\<close> clause. The first three attributes are assigned
  before the second sort is attempted.
\<close>

definition load_mapping :: "mapper \<Rightarrow> json_source \<Rightarrow> mapper \<times> bool" where
  "load_mapping m src =
     (case src of
        NoFile \<Rightarrow> (m, False)
      | BadFile \<Rightarrow> (m, False)
      | Entries es \<Rightarrow>
          (case read_entries es of
             Inl e \<Rightarrow> (m, False)
           | Inr pairs \<Rightarrow>
               (case py_sorted py_lt_tuple pairs of
                  Inl e \<Rightarrow> (m, False)
                | Inr ts \<Rightarrow>
                    (let m1 = m\<lparr>timestamps := ts, data_timestamps := map fst ts,
                                 video_times := map snd ts\<rparr>
                     in case py_sorted (\<lambda>x y. py_lt (snd x) (snd y)) ts of
                          Inl e \<Rightarrow> (m1, False)
                        | Inr tv \<Rightarrow>
                            (m1\<lparr>timestamps_by_video := Some tv,
                                video_times_sorted := Some (map snd tv),
                                data_timestamps_by_video := Some (map fst tv)\<rparr>, True)))))"

text \<open>The constructor: \<^verbatim>\<open>load_mapping\<close> is called only when the file exists.\<close>

definition new_mapper :: "json_source \<Rightarrow> mapper" where
  "new_mapper src = (if src = NoFile then empty_mapper else fst (load_mapping empty_mapper src))"


text \<open>
  The interpolation step shared by both directions:
  \<^verbatim>\<open>ratio = (x - prev_k) / (next_k - prev_k); prev_v + ratio * (next_v - prev_v)\<close>.
\<close>

definition interpolate_between ::
  "pyval \<Rightarrow> pyval \<Rightarrow> pyval \<Rightarrow> pyval \<Rightarrow> pyval \<Rightarrow> error + pyval" where
  "interpolate_between x prev_k next_k prev_v next_v =
     (case py_sub x prev_k of Inl e \<Rightarrow> Inl e | Inr num \<Rightarrow>
      (case py_sub next_k prev_k of Inl e \<Rightarrow> Inl e | Inr den \<Rightarrow>
       (case py_truediv num den of Inl e \<Rightarrow> Inl e | Inr ratio \<Rightarrow>
        (case py_sub next_v prev_v of Inl e \<Rightarrow> Inl e | Inr dv \<Rightarrow>
           py_add prev_v (ratio * dv)))))"

definition data_to_video_time :: "mapper \<Rightarrow> pyval \<Rightarrow> error + pyval option" where
  "data_to_video_time m data_timestamp =
     (if timestamps m = [] then Inr None
      else
        (case py_bisect_left (data_timestamps m) data_timestamp of
           Inl e \<Rightarrow> Inl e
         | Inr idx \<Rightarrow>
             if idx = 0 then map_sum id Some (py_nth (video_times m) 0)
             else if idx \<ge> length (timestamps m) then map_sum id Some (py_last (video_times m))
             else
               (case py_nth (timestamps m) (idx - 1) of
                  Inl e \<Rightarrow> Inl e
                | Inr (prev_data_ts, prev_video_ts) \<Rightarrow>
                    (case py_nth (timestamps m) idx of
                       Inl e \<Rightarrow> Inl e
                     | Inr (next_data_ts, next_video_ts) \<Rightarrow>
                         if prev_data_ts = data_timestamp then Inr (Some prev_video_ts)
                         else if next_data_ts = data_timestamp then Inr (Some next_video_ts)
                         else if next_data_ts = prev_data_ts then Inr (Some prev_video_ts)
                         else map_sum id Some
                                (interpolate_between data_timestamp prev_data_ts next_data_ts
                                   prev_video_ts next_video_ts)))))"

definition video_to_data_time :: "mapper \<Rightarrow> pyval \<Rightarrow> error + pyval option" where
  "video_to_data_time m video_time =
     (if timestamps m = [] \<or> timestamps_by_video m = None then Inr None
      else
        (case (video_times_sorted m, data_timestamps_by_video m, timestamps_by_video m) of
           (Some vts, Some dts, Some tbv) \<Rightarrow>
             (case py_bisect_left vts video_time of
                Inl e \<Rightarrow> Inl e
              | Inr idx \<Rightarrow>
                  if idx = 0 then map_sum id Some (py_nth dts 0)
                  else if idx \<ge> length tbv then map_sum id Some (py_last dts)
                  else
                    (case py_nth tbv (idx - 1) of
                       Inl e \<Rightarrow> Inl e
                     | Inr (prev_data_ts, prev_video_ts) \<Rightarrow>
                         (case py_nth tbv idx of
                            Inl e \<Rightarrow> Inl e
                          | Inr (next_data_ts, next_video_ts) \<Rightarrow>
                              if prev_video_ts = video_time then Inr (Some prev_data_ts)
                              else if next_video_ts = video_time then Inr (Some next_data_ts)
                              else if next_video_ts = prev_video_ts then Inr (Some prev_data_ts)
                              else map_sum id Some
                                     (interpolate_between video_time prev_video_ts next_video_ts
                                        prev_data_ts next_data_ts))))
         | _ \<Rightarrow> Inl AttributeError))"

subsection \<open>Tables of numbers\<close>

text \<open>
  A correspondence table whose times are all numbers is given by its anchor pairs
  \<open>(data_timestamp, video_time)\<close>. The definitions below name the file it is loaded from,
  its two sorted projections, and what a query computes on sorted keys \<open>ks\<close> with values
  \<open>vs\<close>; the lemmas \<open>load_anchors\<close>, \<open>data_to_video_time_anchors\<close> and
  \<open>video_to_data_time_anchors\<close> show that the mapper above does exactly this.
\<close>

definition num_pair :: "real \<times> real \<Rightarrow> pyval \<times> pyval" where
  "num_pair p = (Num (fst p), Num (snd p))"

definition anchor_entry :: "real \<times> real \<Rightarrow> entry" where
  "anchor_entry p = [''data_timestamp'' \<mapsto> Num (fst p), ''video_time'' \<mapsto> Num (snd p)]"

definition anchors_file :: "(real \<times> real) list \<Rightarrow> json_source" where
  "anchors_file anchors = Entries (map anchor_entry anchors)"

definition lex_lt :: "real \<times> real \<Rightarrow> real \<times> real \<Rightarrow> bool" where
  "lex_lt p q = (fst p < fst q \<or> (fst p = fst q \<and> snd p < snd q))"

definition by_data :: "(real \<times> real) list \<Rightarrow> (real \<times> real) list" where
  "by_data anchors = sort_by lex_lt anchors"

definition by_video :: "(real \<times> real) list \<Rightarrow> (real \<times> real) list" where
  "by_video anchors = sort_by (\<lambda>p q. snd p < snd q) (by_data anchors)"

definition interpolate :: "real list \<Rightarrow> real list \<Rightarrow> real \<Rightarrow> real" where
  "interpolate ks vs x =
     (let idx = bisect_left ks x in
      if idx = 0 then vs ! 0
      else if idx \<ge> length ks then last vs
      else
        (let prev_k = ks ! (idx - 1); prev_v = vs ! (idx - 1);
             next_k = ks ! idx; next_v = vs ! idx
         in if prev_k = x then prev_v
            else if next_k = x then next_v
            else if next_k = prev_k then prev_v
            else prev_v + (x - prev_k) / (next_k - prev_k) * (next_v - prev_v)))"

text \<open>Concrete tables and files for the examples below.\<close>

definition three_anchors :: "(real \<times> real) list" where
  "three_anchors = [(10, 1), (0, 0), (20, 5)]"

definition same_data_anchors :: "(real \<times> real) list" where
  "same_data_anchors = [(1, 10), (1, 20)]"

definition same_video_anchors :: "(real \<times> real) list" where
  "same_video_anchors = [(1, 10), (2, 10)]"



section \<open>Verified properties\<close>

subsection \<open>Facts about \<^verbatim>\<open>bisect_left\<close>\<close>

lemma bisect_left_from_stop: "\<not> lo < hi \<Longrightarrow> bisect_left_from a x lo hi = lo"
  by (subst bisect_left_from.simps) simp

lemma bisect_left_from_right:
  "lo < hi \<Longrightarrow> a ! ((lo + hi) div 2) < x \<Longrightarrow>
   bisect_left_from a x lo hi = bisect_left_from a x ((lo + hi) div 2 + 1) hi"
  by (subst bisect_left_from.simps) simp

lemma bisect_left_from_left:
  "lo < hi \<Longrightarrow> \<not> a ! ((lo + hi) div 2) < x \<Longrightarrow>
   bisect_left_from a x lo hi = bisect_left_from a x lo ((lo + hi) div 2)"
  by (subst bisect_left_from.simps) simp

lemma bisect_left_from_bounds:
  "lo \<le> hi \<Longrightarrow> lo \<le> bisect_left_from a x lo hi \<and> bisect_left_from a x lo hi \<le> hi"
proof (induction a x lo hi rule: bisect_left_from.induct)
  case (1 a x lo hi)
  show ?case
  proof (cases "lo < hi")
    case False
    with "1.prems" show ?thesis
      by (simp add: bisect_left_from_stop)
  next
    case True
    define mid where "mid = (lo + hi) div 2"
    have mid: "lo \<le> mid" "mid < hi"
      using True by (simp_all add: mid_def)
    show ?thesis
    proof (cases "a ! mid < x")
      case True
      have "mid + 1 \<le> bisect_left_from a x (mid + 1) hi \<and> bisect_left_from a x (mid + 1) hi \<le> hi"
        using "1.IH"(1) [of mid] \<open>lo < hi\<close> True mid by (simp add: mid_def)
      then show ?thesis
        using \<open>lo < hi\<close> True mid
        by (simp add: bisect_left_from_right mid_def)
    next
      case False
      have "lo \<le> bisect_left_from a x lo mid \<and> bisect_left_from a x lo mid \<le> mid"
        using "1.IH"(2) [of mid] \<open>lo < hi\<close> False mid by (simp add: mid_def)
      then show ?thesis
        using \<open>lo < hi\<close> False mid
        by (simp add: bisect_left_from_left mid_def)
    qed
  qed
qed

lemma bisect_left_le_length: "bisect_left a x \<le> length a"
  using bisect_left_from_bounds [of 0 "length a" a x] by (simp add: bisect_left_def)

text \<open>
  On an ascending list the loop keeps everything left of \<open>lo\<close> below \<open>x\<close> and everything
  from \<open>hi\<close> on at or above \<open>x\<close>; the result splits the list at the first element that is
  not below \<open>x\<close>.
\<close>

lemma bisect_left_from_split:
  assumes "sorted a" "lo \<le> hi" "hi \<le> length a"
    and "\<forall>i<lo. a ! i < x"
    and "\<forall>i. hi \<le> i \<and> i < length a \<longrightarrow> x \<le> a ! i"
  shows "(\<forall>i<bisect_left_from a x lo hi. a ! i < x) \<and>
         (\<forall>i. bisect_left_from a x lo hi \<le> i \<and> i < length a \<longrightarrow> x \<le> a ! i)"
  using assms
proof (induction a x lo hi rule: bisect_left_from.induct)
  case (1 a x lo hi)
  show ?case
  proof (cases "lo < hi")
    case False
    with "1.prems" show ?thesis
      by (simp add: bisect_left_from_stop)
  next
    case True
    define mid where "mid = (lo + hi) div 2"
    have mid: "lo \<le> mid" "mid < hi"
      using True by (simp_all add: mid_def)
    show ?thesis
    proof (cases "a ! mid < x")
      case lt: True
      have below: "\<forall>i<mid + 1. a ! i < x"
      proof (intro allI impI)
        fix i assume "i < mid + 1"
        then have "i \<le> mid" by simp
        moreover have "mid < length a" using mid "1.prems"(3) by simp
        ultimately have "a ! i \<le> a ! mid"
          using "1.prems"(1) by (simp add: sorted_iff_nth_mono)
        with lt show "a ! i < x" by simp
      qed
      have "(\<forall>i<bisect_left_from a x (mid + 1) hi. a ! i < x) \<and>
            (\<forall>i. bisect_left_from a x (mid + 1) hi \<le> i \<and> i < length a \<longrightarrow> x \<le> a ! i)"
        using "1.IH"(1) [of mid] True lt mid "1.prems" below by (simp add: mid_def)
      then show ?thesis
        using True lt by (simp add: bisect_left_from_right mid_def)
    next
      case ge: False
      have above: "\<forall>i. mid \<le> i \<and> i < length a \<longrightarrow> x \<le> a ! i"
      proof (intro allI impI)
        fix i assume "mid \<le> i \<and> i < length a"
        then have "a ! mid \<le> a ! i"
          using "1.prems"(1) by (simp add: sorted_iff_nth_mono)
        with ge show "x \<le> a ! i" by simp
      qed
      have "(\<forall>i<bisect_left_from a x lo mid. a ! i < x) \<and>
            (\<forall>i. bisect_left_from a x lo mid \<le> i \<and> i < length a \<longrightarrow> x \<le> a ! i)"
        using "1.IH"(2) [of mid] True ge mid "1.prems" above by (simp add: mid_def)
      then show ?thesis
        using True ge by (simp add: bisect_left_from_left mid_def)
    qed
  qed
qed

lemma bisect_left_split:
  assumes "sorted a"
  shows "(\<forall>i<bisect_left a x. a ! i < x) \<and>
         (\<forall>i. bisect_left a x \<le> i \<and> i < length a \<longrightarrow> x \<le> a ! i)"
  unfolding bisect_left_def
  by (rule bisect_left_from_split) (use assms in auto)

subsection \<open>Nearest-timestamp lookup\<close>

lemma find_index_cases:
  assumes "data_list \<noteq> []"
  shows "find_index_for_timestamp data_list t =
     (let ts = timestamp_ns_list data_list; idx = bisect_left ts t
      in if idx = 0 then Some 0
         else if idx \<ge> length ts then Some (length ts - 1)
         else if \<bar>ts ! (idx - 1) - t\<bar> < \<bar>ts ! idx - t\<bar> then Some (idx - 1) else Some idx)"
  using assms by (simp add: find_index_for_timestamp_def Let_def)

lemmas find_index_eval =
  find_index_for_timestamp_def timestamp_ns_list_def bisect_left_def still_row_def
  bisect_left_from.simps Let_def



text \<open>
  Claim C1, as stated: a target exactly half-way between two consecutive samples is
  answered with the earlier index. The code compares with a strict \<^verbatim>\<open><\<close>, so a tie goes
  to the later index: with samples at 0 and 10 the target 5 is answered with index 1.
\<close>

theorem find_index_tie_counterexample:
  "sorted (timestamp_ns_list [still_row 0, still_row 10]) \<and>
   5 - timestamp_ns_list [still_row 0, still_row 10] ! 0
     = timestamp_ns_list [still_row 0, still_row 10] ! 1 - 5 \<and>
   find_index_for_timestamp [still_row 0, still_row 10] 5 = Some 1 \<and>
   find_index_for_timestamp [still_row 0, still_row 10] 5 \<noteq> Some 0"
  by (simp add: find_index_eval)

text \<open>
  Claim C1, amended. On ascending timestamps, a target strictly between the samples
  \<open>i\<close> and \<open>i + 1\<close> and equally far from both is answered with the later index \<open>i + 1\<close>.
\<close>

theorem find_index_tie_later:
  assumes "sorted (timestamp_ns_list data_list)" "Suc i < length data_list"
    and "timestamp_ns_list data_list ! i < t"
    and "t - timestamp_ns_list data_list ! i = timestamp_ns_list data_list ! Suc i - t"
  shows "find_index_for_timestamp data_list t = Some (Suc i)"
proof -
  define ts where "ts = timestamp_ns_list data_list"
  define r where "r = bisect_left ts t"
  have len: "length ts = length data_list" by (simp add: ts_def timestamp_ns_list_def)
  have ne: "data_list \<noteq> []" using assms(2) by auto
  have split: "\<forall>k<r. ts ! k < t" "\<forall>k. r \<le> k \<and> k < length ts \<longrightarrow> t \<le> ts ! k"
    using bisect_left_split [of ts t] assms(1) by (simp_all add: ts_def r_def)
  have lo: "ts ! i < t" and hi: "t < ts ! Suc i" and eq: "t - ts ! i = ts ! Suc i - t"
    using assms(3,4) by (simp_all add: ts_def)
  have "i < r"
  proof (rule ccontr)
    assume "\<not> i < r"
    then have "t \<le> ts ! i" using split(2) assms(2) len by simp
    with lo show False by simp
  qed
  moreover have "r \<le> Suc i"
  proof (rule ccontr)
    assume "\<not> r \<le> Suc i"
    then have "ts ! Suc i < t" using split(1) by simp
    with hi show False by simp
  qed
  ultimately have r: "r = Suc i" by simp
  show ?thesis
    using ne r lo hi eq assms(2) len
    by (simp add: find_index_cases Let_def ts_def [symmetric] r_def [symmetric])
qed

theorem find_index_tie_later_witness:
  "sorted (timestamp_ns_list [still_row 0, still_row 10, still_row 30]) \<and>
   Suc 1 < length [still_row 0, still_row 10, still_row 30] \<and>
   timestamp_ns_list [still_row 0, still_row 10, still_row 30] ! 1 < 20 \<and>
   20 - timestamp_ns_list [still_row 0, still_row 10, still_row 30] ! 1
     = timestamp_ns_list [still_row 0, still_row 10, still_row 30] ! Suc 1 - 20 \<and>
   find_index_for_timestamp [still_row 0, still_row 10, still_row 30] 20 = Some (Suc 1)"
proof -
  have h1: "sorted (timestamp_ns_list [still_row 0, still_row 10, still_row 30])"
    by (simp add: timestamp_ns_list_def still_row_def)
  have h2: "Suc 1 < length [still_row 0, still_row 10, still_row 30]" by simp
  have h3: "timestamp_ns_list [still_row 0, still_row 10, still_row 30] ! 1 < 20"
    by (simp add: timestamp_ns_list_def still_row_def)
  have h4: "20 - timestamp_ns_list [still_row 0, still_row 10, still_row 30] ! 1
     = timestamp_ns_list [still_row 0, still_row 10, still_row 30] ! Suc 1 - 20"
    by (simp add: timestamp_ns_list_def still_row_def)
  show ?thesis
    using h1 h2 h3 h4 find_index_tie_later [OF h1 h2 h3 h4] by simp
qed

text \<open>
  Claim C5, as stated: the timestamp of any sample \<open>i\<close> is answered with \<open>i\<close>. The store
  keeps samples with equal timestamps as separate indices, and the search stops at the
  first of them: with two samples at 5, the timestamp of sample 1 is answered with 0.
\<close>

theorem find_index_exact_counterexample:
  "(1::nat) < length [still_row 5, still_row 5] \<and>
   find_index_for_timestamp [still_row 5, still_row 5]
     (timestamp_ns_list [still_row 5, still_row 5] ! 1) = Some 0 \<and>
   find_index_for_timestamp [still_row 5, still_row 5]
     (timestamp_ns_list [still_row 5, still_row 5] ! 1) \<noteq> Some 1"
  by (simp add: find_index_eval)

text \<open>
  Claim C5, amended. On ascending timestamps, the timestamp of sample \<open>i\<close> is answered
  with the first index that carries this timestamp; this is \<open>i\<close> itself when no earlier
  sample has the same timestamp.
\<close>

theorem find_index_exact_first:
  assumes "sorted (timestamp_ns_list data_list)" "i < length data_list"
  shows "\<exists>j. find_index_for_timestamp data_list (timestamp_ns_list data_list ! i) = Some j \<and>
             j \<le> i \<and> timestamp_ns_list data_list ! j = timestamp_ns_list data_list ! i \<and>
             (\<forall>k<j. timestamp_ns_list data_list ! k < timestamp_ns_list data_list ! i) \<and>
             ((\<forall>k<i. timestamp_ns_list data_list ! k \<noteq> timestamp_ns_list data_list ! i)
                \<longrightarrow> j = i)"
proof -
  define ts where "ts = timestamp_ns_list data_list"
  define t where "t = ts ! i"
  define r where "r = bisect_left ts t"
  have len: "length ts = length data_list" by (simp add: ts_def timestamp_ns_list_def)
  have ne: "data_list \<noteq> []" using assms(2) by auto
  have srt: "sorted ts" using assms(1) by (simp add: ts_def)
  have split: "\<forall>k<r. ts ! k < t" "\<forall>k. r \<le> k \<and> k < length ts \<longrightarrow> t \<le> ts ! k"
    using bisect_left_split [of ts t] srt by (simp_all add: r_def)
  have ri: "r \<le> i"
  proof (rule ccontr)
    assume "\<not> r \<le> i"
    then have "ts ! i < t" using split(1) by simp
    then show False by (simp add: t_def)
  qed
  have rn: "r < length ts" using ri assms(2) len by simp
  have "ts ! r \<le> ts ! i" using srt ri assms(2) len by (simp add: sorted_iff_nth_mono)
  moreover have "t \<le> ts ! r" using split(2) rn by simp
  ultimately have tr: "ts ! r = t" by (simp add: t_def)
  have prev: "r \<noteq> 0 \<Longrightarrow> ts ! (r - 1) < t" using split(1) by simp
  have found: "find_index_for_timestamp data_list t = Some r"
    using ne rn tr prev
    by (auto simp: find_index_cases Let_def ts_def [symmetric] r_def [symmetric])
  have uniq: "(\<forall>k<i. ts ! k \<noteq> t) \<longrightarrow> r = i"
    using ri tr by (auto simp: le_less)
  show ?thesis
    using found ri tr split(1) uniq by (simp add: ts_def [symmetric] t_def [symmetric])
qed

theorem find_index_exact_first_witness:
  "sorted (timestamp_ns_list [still_row 0, still_row 5, still_row 5, still_row 9]) \<and>
   (2::nat) < length [still_row 0, still_row 5, still_row 5, still_row 9] \<and>
   find_index_for_timestamp [still_row 0, still_row 5, still_row 5, still_row 9]
     (timestamp_ns_list [still_row 0, still_row 5, still_row 5, still_row 9] ! 2) = Some 1 \<and>
   (\<exists>j. find_index_for_timestamp [still_row 0, still_row 5, still_row 5, still_row 9]
          (timestamp_ns_list [still_row 0, still_row 5, still_row 5, still_row 9] ! 2) = Some j \<and>
        j \<le> 2)"
proof -
  have h1: "sorted (timestamp_ns_list [still_row 0, still_row 5, still_row 5, still_row 9])"
    by (simp add: timestamp_ns_list_def still_row_def)
  have h2: "(2::nat) < length [still_row 0, still_row 5, still_row 5, still_row 9]" by simp
  have ev: "find_index_for_timestamp [still_row 0, still_row 5, still_row 5, still_row 9]
     (timestamp_ns_list [still_row 0, still_row 5, still_row 5, still_row 9] ! 2) = Some 1"
    by (simp add: find_index_eval)
  show ?thesis
    using h1 h2 ev find_index_exact_first [OF h1 h2] by auto
qed

subsection \<open>Orientation\<close>








lemmas frame_eval =
  get_data_at_index_def four_rows_def Let_def from_quat_def helmet_raw_def vehicle_raw_def
  quat_norm_def still_row_def rotation_mul_def compose_quat_def get_data_count_def



subsection \<open>Speed and pacing\<close>

text \<open>
  Claim C2. At speed 1 the delay for a timestamp difference of 50 ms is 50 ms, for
  500 ms it is 100 ms, for 0 it is 1 ms, for a negative difference and for a difference
  above 10 s it is the default 10 ms; for any other difference and any non-zero speed it
  is the difference divided by the speed, clamped to between 1 ms and 100 ms.
\<close>

theorem sleep_time_pacing:
  "(c - l = 0.05 \<longrightarrow> sleep_time 1 (Some l) c = Inr 0.05) \<and>
   (c - l = 0.5 \<longrightarrow> sleep_time 1 (Some l) c = Inr 0.1) \<and>
   (c - l = 0 \<longrightarrow> sleep_time 1 (Some l) c = Inr 0.001) \<and>
   (c - l < 0 \<longrightarrow> sleep_time 1 (Some l) c = Inr 0.01) \<and>
   (c - l > 10 \<longrightarrow> sleep_time 1 (Some l) c = Inr 0.01) \<and>
   (0 < c - l \<and> c - l \<le> 10 \<and> speed \<noteq> 0 \<longrightarrow>
      sleep_time speed (Some l) c = Inr (max 0.001 (min 0.1 ((c - l) / speed))))"
  by (simp add: sleep_time_def py_truediv_def Let_def)

theorem sleep_time_pacing_witness:
  "sleep_time 1 (Some 2) 2.05 = Inr 0.05 \<and>
   sleep_time 1 (Some 2) 2.5 = Inr 0.1 \<and>
   sleep_time 1 (Some 2) 2 = Inr 0.001 \<and>
   sleep_time 1 (Some 2) 1 = Inr 0.01 \<and>
   sleep_time 1 (Some 2) 13 = Inr 0.01 \<and>
   sleep_time 2 (Some 2) 2.05 = Inr 0.025"
  using sleep_time_pacing [of "2.05" 2 1] sleep_time_pacing [of "2.5" 2 1]
    sleep_time_pacing [of 2 2 1] sleep_time_pacing [of 1 2 1] sleep_time_pacing [of 13 2 1]
    sleep_time_pacing [of "2.05" 2 2]
  by simp

text \<open>
  Claim C3, as stated: the stored speed always lies in \<open>(0, 2]\<close>. The handlers take the
  minimum with 2.0 and have no lower bound: a request of 0 is stored as 0, a request of
  \<open>-1\<close> as \<open>-1\<close>.
\<close>

theorem speed_not_positive_counterexample:
  "playback_speed
     (handle_set_speed \<lparr>data_index = None, data_speed = Some 0\<rparr> running_state) = 0 \<and>
   \<not> 0 < playback_speed
     (handle_set_speed \<lparr>data_index = None, data_speed = Some 0\<rparr> running_state) \<and>
   playback_speed
     (handle_start_playback \<lparr>data_index = None, data_speed = Some (- 1)\<rparr> running_state) = - 1"
  by (simp add: handle_set_speed_def handle_start_playback_def running_state_def)

text \<open>
  Claim C3, amended. After \<^verbatim>\<open>set_speed\<close>, and after \<^verbatim>\<open>start_playback\<close> on an initialised
  store, the stored speed is the minimum of the requested speed and 2.0: it is at most
  2.0, a request above 2.0 is stored as 2.0, and it is positive exactly when the request
  is.
\<close>

theorem speed_capped_at_two:
  "playback_speed (handle_set_speed d s)
     = min (case data_speed d of Some v \<Rightarrow> v | None \<Rightarrow> 1) 2 \<and>
   playback_speed (handle_set_speed d s) \<le> 2 \<and>
   (2 < (case data_speed d of Some v \<Rightarrow> v | None \<Rightarrow> 1) \<longrightarrow>
      playback_speed (handle_set_speed d s) = 2) \<and>
   (0 < playback_speed (handle_set_speed d s)
      \<longleftrightarrow> 0 < (case data_speed d of Some v \<Rightarrow> v | None \<Rightarrow> 1)) \<and>
   (processor s \<noteq> None \<longrightarrow>
      playback_speed (handle_start_playback d s)
        = min (case data_speed d of Some v \<Rightarrow> v | None \<Rightarrow> 2) 2 \<and>
      playback_speed (handle_start_playback d s) \<le> 2 \<and>
      (2 < (case data_speed d of Some v \<Rightarrow> v | None \<Rightarrow> 2) \<longrightarrow>
         playback_speed (handle_start_playback d s) = 2) \<and>
      (0 < playback_speed (handle_start_playback d s)
         \<longleftrightarrow> 0 < (case data_speed d of Some v \<Rightarrow> v | None \<Rightarrow> 2)))"
  by (auto simp: handle_set_speed_def handle_start_playback_def Let_def split: option.splits)

theorem speed_capped_at_two_witness:
  "processor running_state \<noteq> None \<and>
   playback_speed
     (handle_set_speed \<lparr>data_index = None, data_speed = Some 5\<rparr> running_state) = 2 \<and>
   playback_speed
     (handle_start_playback \<lparr>data_index = Some 2, data_speed = Some 5\<rparr> running_state) = 2"
  using speed_capped_at_two [of "\<lparr>data_index = None, data_speed = Some 5\<rparr>" running_state]
    speed_capped_at_two [of "\<lparr>data_index = Some 2, data_speed = Some 5\<rparr>" running_state]
  by (simp add: running_state_def)

text \<open>
  Claim C4 at a concrete run. The loop sends sample 0 (timestamp 0 s) and sleeps the
  default 10 ms; a seek then moves the index to sample 3 (timestamp 0.06 s). The next
  pass computes the difference to the timestamp sent before the seek and sleeps 60 ms,
  not the default 10 ms.
\<close>

theorem seek_forward_paced_against_pre_seek_timestamp:
  "\<exists>ls1 ls2.
     playback_pass loop_start = Inr (ls1, Sleep 0.01) \<and>
     last_timestamp ls1 = Some 0 \<and>
     playback_pass
       (ls1\<lparr>shared := handle_seek \<lparr>data_index = Some 3, data_speed = None\<rparr> (shared ls1)\<rparr>)
       = Inr (ls2, Sleep 0.06) \<and>
     Sleep 0.06 \<noteq> Sleep (0.01 / playback_speed (shared ls1))"
  by (simp add: playback_pass_def loop_start_def handle_seek_def running_state_def frame_eval
      sleep_time_def py_truediv_def)

subsection \<open>Timeline mapper: sorting\<close>

lemma set_insort_by: "set (insort_by lt x xs) = insert x (set xs)"
  by (induction xs) auto

lemma length_insort_by: "length (insort_by lt x xs) = Suc (length xs)"
  by (induction xs) auto

lemma set_sort_by: "set (sort_by lt xs) = set xs"
  by (induction xs) (simp_all add: sort_by_def set_insort_by)

lemma length_sort_by: "length (sort_by lt xs) = length xs"
  by (induction xs) (simp_all add: sort_by_def length_insort_by)

lemma sort_by_Nil_iff: "sort_by lt xs = [] \<longleftrightarrow> xs = []"
  using length_sort_by [of lt xs] by (metis length_0_conv)

lemma insort_by_map:
  assumes "\<And>x y. lt' (f x) (f y) = lt x y"
  shows "insort_by lt' (f x) (map f xs) = map f (insort_by lt x xs)"
  by (induction xs) (simp_all add: assms)

lemma sort_by_map:
  assumes "\<And>x y. lt' (f x) (f y) = lt x y"
  shows "sort_by lt' (map f xs) = map f (sort_by lt xs)"
  by (induction xs) (simp_all add: sort_by_def insort_by_map [of lt' f lt, OF assms])

lemma sorted_wrt_insort_by:
  assumes asym: "\<And>x y. lt x y \<Longrightarrow> \<not> lt y x"
    and trans: "\<And>x y z. \<not> lt y x \<Longrightarrow> \<not> lt z y \<Longrightarrow> \<not> lt z x"
    and "sorted_wrt (\<lambda>x y. \<not> lt y x) xs"
  shows "sorted_wrt (\<lambda>x y. \<not> lt y x) (insort_by lt x xs)"
  using assms(3)
proof (induction xs)
  case Nil
  then show ?case by simp
next
  case (Cons y ys)
  show ?case
  proof (cases "lt y x")
    case True
    then show ?thesis
      using Cons asym by (auto simp: set_insort_by)
  next
    case False
    then show ?thesis
      using Cons trans by auto
  qed
qed

lemma sorted_wrt_sort_by:
  assumes asym: "\<And>x y. lt x y \<Longrightarrow> \<not> lt y x"
    and trans: "\<And>x y z. \<not> lt y x \<Longrightarrow> \<not> lt z y \<Longrightarrow> \<not> lt z x"
  shows "sorted_wrt (\<lambda>x y. \<not> lt y x) (sort_by lt xs)"
  by (induction xs) (simp_all add: sort_by_def sorted_wrt_insort_by [of lt, OF asym trans])

lemma sorted_by_data: "sorted (map fst (by_data anchors))"
proof -
  have "sorted_wrt (\<lambda>x y. \<not> lex_lt y x) (by_data anchors)"
    unfolding by_data_def by (rule sorted_wrt_sort_by) (auto simp: lex_lt_def)
  then have "sorted_wrt (\<lambda>x y. fst x \<le> fst y) (by_data anchors)"
    by (rule sorted_wrt_mono_rel [rotated]) (auto simp: lex_lt_def)
  then show ?thesis by (simp add: sorted_map)
qed

lemma sorted_by_video: "sorted (map snd (by_video anchors))"
proof -
  have "sorted_wrt (\<lambda>x y. \<not> snd y < snd x) (by_video anchors)"
    unfolding by_video_def by (rule sorted_wrt_sort_by) auto
  then have "sorted_wrt (\<lambda>x y. snd x \<le> snd y) (by_video anchors)"
    by (rule sorted_wrt_mono_rel [rotated]) auto
  then show ?thesis by (simp add: sorted_map)
qed

lemma set_by_data: "set (by_data anchors) = set anchors"
  by (simp add: by_data_def set_sort_by)

lemma set_by_video: "set (by_video anchors) = set anchors"
  by (simp add: by_video_def set_sort_by set_by_data)

lemma length_by_data: "length (by_data anchors) = length anchors"
  by (simp add: by_data_def length_sort_by)

lemma length_by_video: "length (by_video anchors) = length anchors"
  by (simp add: by_video_def length_sort_by length_by_data)

subsection \<open>Loading a table of numbers\<close>

lemma read_entries_anchors: "read_entries (map anchor_entry anchors) = Inr (map num_pair anchors)"
  by (induction anchors) (simp_all add: anchor_entry_def num_pair_def)

lemma py_lt_tuple_num: "py_lt_tuple (num_pair p) (num_pair q) = Inr (lex_lt p q)"
  by (cases p; cases q) (auto simp: num_pair_def lex_lt_def)

lemma comparable_tuple_num: "comparable py_lt_tuple (map num_pair xs)"
  by (induction xs) (simp_all add: list_all_iff py_lt_tuple_num)

lemma py_lt_snd_num: "py_lt (snd (num_pair p)) (snd (num_pair q)) = Inr (snd p < snd q)"
  by (simp add: num_pair_def)

lemma comparable_snd_num: "comparable (\<lambda>x y. py_lt (snd x) (snd y)) (map num_pair xs)"
  by (induction xs) (simp_all add: list_all_iff py_lt_snd_num)

lemma py_sorted_tuple_num:
  "py_sorted py_lt_tuple (map num_pair xs) = Inr (map num_pair (sort_by lex_lt xs))"
  by (simp add: py_sorted_def comparable_tuple_num
      sort_by_map [of "\<lambda>x y. py_lt_tuple x y = Inr True" num_pair lex_lt] py_lt_tuple_num)

lemma py_sorted_snd_num:
  "py_sorted (\<lambda>x y. py_lt (snd x) (snd y)) (map num_pair xs)
     = Inr (map num_pair (sort_by (\<lambda>p q. snd p < snd q) xs))"
  by (simp add: py_sorted_def comparable_snd_num
      sort_by_map [of "\<lambda>x y. py_lt (snd x) (snd y) = Inr True" num_pair "\<lambda>p q. snd p < snd q"]
      py_lt_snd_num)

lemma load_anchors:
  "load_mapping empty_mapper (anchors_file anchors) =
     (\<lparr>timestamps = map num_pair (by_data anchors),
       data_timestamps = map (\<lambda>p. Num (fst p)) (by_data anchors),
       video_times = map (\<lambda>p. Num (snd p)) (by_data anchors),
       timestamps_by_video = Some (map num_pair (by_video anchors)),
       video_times_sorted = Some (map (\<lambda>p. Num (snd p)) (by_video anchors)),
       data_timestamps_by_video = Some (map (\<lambda>p. Num (fst p)) (by_video anchors))\<rparr>, True)"
  by (simp add: load_mapping_def anchors_file_def read_entries_anchors py_sorted_tuple_num
      py_sorted_snd_num by_data_def by_video_def empty_mapper_def Let_def num_pair_def o_def)

subsection \<open>Timeline mapper: queries on a table of numbers\<close>

lemma py_bisect_left_from_num:
  "hi \<le> length ks \<Longrightarrow>
   py_bisect_left_from (map Num ks) (Num x) lo hi = Inr (bisect_left_from ks x lo hi)"
proof (induction ks x lo hi rule: bisect_left_from.induct)
  case (1 a x lo hi)
  show ?case
  proof (cases "lo < hi")
    case False
    then show ?thesis
      by (simp add: bisect_left_from_stop py_bisect_left_from.simps [of _ _ lo hi])
  next
    case True
    define mid where "mid = (lo + hi) div 2"
    have mid: "mid < hi" "mid < length a" using True "1.prems" by (simp_all add: mid_def)
    show ?thesis
    proof (cases "a ! mid < x")
      case lt: True
      have "py_bisect_left_from (map Num a) (Num x) (mid + 1) hi
              = Inr (bisect_left_from a x (mid + 1) hi)"
        using "1.IH"(1) [of mid] True lt "1.prems" by (simp add: mid_def)
      then show ?thesis
        using True lt mid
        by (simp add: py_bisect_left_from.simps [of _ _ lo hi] bisect_left_from_right
            mid_def [symmetric] Let_def)
    next
      case ge: False
      have "py_bisect_left_from (map Num a) (Num x) lo mid = Inr (bisect_left_from a x lo mid)"
        using "1.IH"(2) [of mid] True ge "1.prems" mid by (simp add: mid_def)
      then show ?thesis
        using True ge mid
        by (simp add: py_bisect_left_from.simps [of _ _ lo hi] bisect_left_from_left
            mid_def [symmetric] Let_def)
    qed
  qed
qed

lemma py_bisect_left_num: "py_bisect_left (map Num ks) (Num x) = Inr (bisect_left ks x)"
  using py_bisect_left_from_num [of "length ks" ks x 0]
  by (simp add: py_bisect_left_def bisect_left_def)

lemma interpolate_between_num:
  "nk \<noteq> pk \<Longrightarrow>
   interpolate_between (Num x) (Num pk) (Num nk) (Num pv) (Num nv)
     = Inr (Num (pv + (x - pk) / (nk - pk) * (nv - pv)))"
  by (simp add: interpolate_between_def py_truediv_def)

lemma data_to_video_time_table:
  assumes "T \<noteq> []"
    and "timestamps m = map num_pair T"
    and "data_timestamps m = map (\<lambda>p. Num (fst p)) T"
    and "video_times m = map (\<lambda>p. Num (snd p)) T"
  shows "data_to_video_time m (Num x)
           = Inr (Some (Num (interpolate (map fst T) (map snd T) x)))"
proof -
  define idx where "idx = bisect_left (map fst T) x"
  have bis: "py_bisect_left (data_timestamps m) (Num x) = Inr idx"
    using py_bisect_left_num [of "map fst T" x] by (simp add: assms(3) idx_def o_def)
  have le: "idx \<le> length T"
    using bisect_left_le_length [of "map fst T" x] by (simp add: idx_def)
  consider "idx = 0" | "idx \<ge> length T" "idx \<noteq> 0" | "0 < idx" "idx < length T"
    by linarith
  then show ?thesis
  proof cases
    case 1
    then show ?thesis
      using assms bis
      by (simp add: data_to_video_time_def interpolate_def idx_def [symmetric] py_nth_def)
  next
    case 2
    then show ?thesis
      using assms bis
      by (simp add: data_to_video_time_def interpolate_def idx_def [symmetric] py_last_def
          last_map)
  next
    case 3
    then show ?thesis
      using assms bis
      by (simp add: data_to_video_time_def interpolate_def idx_def [symmetric] py_nth_def
          num_pair_def Let_def interpolate_between_num)
  qed
qed

lemma video_to_data_time_table:
  assumes "T \<noteq> []" "timestamps m \<noteq> []"
    and "timestamps_by_video m = Some (map num_pair T)"
    and "video_times_sorted m = Some (map (\<lambda>p. Num (snd p)) T)"
    and "data_timestamps_by_video m = Some (map (\<lambda>p. Num (fst p)) T)"
  shows "video_to_data_time m (Num x)
           = Inr (Some (Num (interpolate (map snd T) (map fst T) x)))"
proof -
  define idx where "idx = bisect_left (map snd T) x"
  have bis: "py_bisect_left (map (\<lambda>p. Num (snd p)) T) (Num x) = Inr idx"
    using py_bisect_left_num [of "map snd T" x] by (simp add: idx_def o_def)
  have le: "idx \<le> length T"
    using bisect_left_le_length [of "map snd T" x] by (simp add: idx_def)
  consider "idx = 0" | "idx \<ge> length T" "idx \<noteq> 0" | "0 < idx" "idx < length T"
    by linarith
  then show ?thesis
  proof cases
    case 1
    then show ?thesis
      using assms bis
      by (simp add: video_to_data_time_def interpolate_def idx_def [symmetric] py_nth_def)
  next
    case 2
    then show ?thesis
      using assms bis
      by (simp add: video_to_data_time_def interpolate_def idx_def [symmetric] py_last_def
          last_map)
  next
    case 3
    then show ?thesis
      using assms bis
      by (simp add: video_to_data_time_def interpolate_def idx_def [symmetric] py_nth_def
          num_pair_def Let_def interpolate_between_num)
  qed
qed

lemma new_mapper_anchors:
  "new_mapper (anchors_file anchors) = fst (load_mapping empty_mapper (anchors_file anchors))"
  by (simp add: new_mapper_def anchors_file_def)

lemma data_to_video_time_anchors:
  assumes "anchors \<noteq> []"
  shows "data_to_video_time (new_mapper (anchors_file anchors)) (Num x)
     = Inr (Some (Num (interpolate (map fst (by_data anchors)) (map snd (by_data anchors)) x)))"
proof -
  have "by_data anchors \<noteq> []" using assms length_by_data [of anchors] by auto
  then show ?thesis
    by (rule data_to_video_time_table) (simp_all add: new_mapper_anchors load_anchors)
qed

lemma video_to_data_time_anchors:
  assumes "anchors \<noteq> []"
  shows "video_to_data_time (new_mapper (anchors_file anchors)) (Num x)
     = Inr (Some (Num (interpolate (map snd (by_video anchors)) (map fst (by_video anchors)) x)))"
proof -
  have "by_video anchors \<noteq> []" using assms length_by_video [of anchors] by auto
  moreover have "by_data anchors \<noteq> []" using assms length_by_data [of anchors] by auto
  ultimately show ?thesis
    by (intro video_to_data_time_table) (simp_all add: new_mapper_anchors load_anchors)
qed



lemma interpolate_at_key:
  fixes T :: "'a list" and kf vf :: "'a \<Rightarrow> real"
  assumes "sorted (map kf T)" "p \<in> set T"
    and "\<forall>q\<in>set T. kf q = kf p \<longrightarrow> vf q = vf p"
  shows "interpolate (map kf T) (map vf T) (kf p) = vf p"
proof -
  define ks where "ks = map kf T"
  define x where "x = kf p"
  define r where "r = bisect_left ks x"
  obtain i where i: "i < length T" "T ! i = p" using assms(2) by (auto simp: in_set_conv_nth)
  have len: "length ks = length T" by (simp add: ks_def)
  have split: "\<forall>k<r. ks ! k < x" "\<forall>k. r \<le> k \<and> k < length ks \<longrightarrow> x \<le> ks ! k"
    using bisect_left_split [of ks x] assms(1) by (simp_all add: ks_def r_def)
  have ki: "ks ! i = x" using i by (simp add: ks_def x_def)
  have ri: "r \<le> i"
  proof (rule ccontr)
    assume "\<not> r \<le> i"
    then have "ks ! i < x" using split(1) by simp
    then show False by (simp add: ki)
  qed
  have rn: "r < length T" using ri i by simp
  have "ks ! r \<le> ks ! i"
    by (rule sorted_nth_mono) (use assms(1) ri i(1) in \<open>simp_all add: ks_def\<close>)
  moreover have "x \<le> ks ! r" using split(2) rn len by simp
  ultimately have kr: "ks ! r = x" by (simp add: ki)
  then have "kf (T ! r) = kf p" using rn by (simp add: ks_def x_def)
  then have vr: "vf (T ! r) = vf p" using assms(3) rn by simp
  have prev: "ks ! (r - 1) \<noteq> x" if "r \<noteq> 0"
  proof -
    have "r - 1 < r" using that by simp
    then have "ks ! (r - 1) < x" using split(1) by blast
    then show ?thesis by simp
  qed
  have "interpolate ks (map vf T) x = vf (T ! r)"
    using rn kr prev len
    by (auto simp: interpolate_def r_def [symmetric] Let_def)
  then show ?thesis by (simp add: vr ks_def x_def)
qed



lemmas table_eval =
  by_data_def by_video_def sort_by_def lex_lt_def interpolate_def bisect_left_def
  bisect_left_from.simps Let_def

subsection \<open>Timeline mapper: anchors and range\<close>

text \<open>
  Claim C6, as stated: every anchor pair \<open>(a, b)\<close> of the table is mapped exactly,
  \<open>a\<close> to \<open>b\<close> and \<open>b\<close> to \<open>a\<close>. Two anchors may share a time; the search then stops at
  the first of them in sorted order: with the anchors \<open>(1, 10)\<close> and \<open>(1, 20)\<close> the data
  time 1 is mapped to 10 although \<open>(1, 20)\<close> is an anchor, and with \<open>(1, 10)\<close> and
  \<open>(2, 10)\<close> the video time 10 is mapped to 1 although \<open>(2, 10)\<close> is an anchor.
\<close>

theorem anchor_round_trip_counterexample:
  "(1, 20) \<in> set same_data_anchors \<and>
   data_to_video_time (new_mapper (anchors_file same_data_anchors)) (Num 1)
     = Inr (Some (Num 10)) \<and>
   data_to_video_time (new_mapper (anchors_file same_data_anchors)) (Num 1)
     \<noteq> Inr (Some (Num 20)) \<and>
   (2, 10) \<in> set same_video_anchors \<and>
   video_to_data_time (new_mapper (anchors_file same_video_anchors)) (Num 10)
     = Inr (Some (Num 1)) \<and>
   video_to_data_time (new_mapper (anchors_file same_video_anchors)) (Num 10)
     \<noteq> Inr (Some (Num 2))"
  by (simp add: data_to_video_time_anchors video_to_data_time_anchors
      same_data_anchors_def same_video_anchors_def table_eval)

text \<open>
  Claim C6, amended. For a table of numbers and an anchor pair \<open>(a, b)\<close> of it:
  \<^verbatim>\<open>data_to_video_time(a)\<close> is exactly \<open>b\<close> when no anchor with the data time \<open>a\<close> has another
  video time, and \<^verbatim>\<open>video_to_data_time(b)\<close> is exactly \<open>a\<close> when no anchor with the video time
  \<open>b\<close> has another data time.
\<close>

theorem anchor_round_trip:
  assumes "(a, b) \<in> set anchors"
  shows "((\<forall>b'. (a, b') \<in> set anchors \<longrightarrow> b' = b) \<longrightarrow>
            data_to_video_time (new_mapper (anchors_file anchors)) (Num a) = Inr (Some (Num b))) \<and>
         ((\<forall>a'. (a', b) \<in> set anchors \<longrightarrow> a' = a) \<longrightarrow>
            video_to_data_time (new_mapper (anchors_file anchors)) (Num b) = Inr (Some (Num a)))"
proof (intro conjI impI)
  have ne: "anchors \<noteq> []" using assms by auto
  {
    assume u: "\<forall>b'. (a, b') \<in> set anchors \<longrightarrow> b' = b"
    have mem: "(a, b) \<in> set (by_data anchors)" using assms by (simp only: set_by_data)
    have uniq: "\<forall>q\<in>set (by_data anchors). fst q = fst (a, b) \<longrightarrow> snd q = snd (a, b)"
    proof (intro ballI impI)
      fix q assume q: "q \<in> set (by_data anchors)" "fst q = fst (a, b)"
      have "q \<in> set anchors" using q(1) by (simp only: set_by_data)
      moreover have "q = (a, snd q)" using q(2) by (simp add: prod_eq_iff)
      ultimately have "(a, snd q) \<in> set anchors" by simp
      with u show "snd q = snd (a, b)" by simp
    qed
    have "interpolate (map fst (by_data anchors)) (map snd (by_data anchors)) (fst (a, b))
            = snd (a, b)"
      using sorted_by_data mem uniq by (rule interpolate_at_key)
    then show "data_to_video_time (new_mapper (anchors_file anchors)) (Num a) = Inr (Some (Num b))"
      by (simp add: data_to_video_time_anchors [OF ne])
  }
  {
    assume u: "\<forall>a'. (a', b) \<in> set anchors \<longrightarrow> a' = a"
    have mem: "(a, b) \<in> set (by_video anchors)" using assms by (simp only: set_by_video)
    have uniq: "\<forall>q\<in>set (by_video anchors). snd q = snd (a, b) \<longrightarrow> fst q = fst (a, b)"
    proof (intro ballI impI)
      fix q assume q: "q \<in> set (by_video anchors)" "snd q = snd (a, b)"
      have "q \<in> set anchors" using q(1) by (simp only: set_by_video)
      moreover have "q = (fst q, b)" using q(2) by (simp add: prod_eq_iff)
      ultimately have "(fst q, b) \<in> set anchors" by simp
      with u show "fst q = fst (a, b)" by simp
    qed
    have "interpolate (map snd (by_video anchors)) (map fst (by_video anchors)) (snd (a, b))
            = fst (a, b)"
      using sorted_by_video mem uniq by (rule interpolate_at_key)
    then show "video_to_data_time (new_mapper (anchors_file anchors)) (Num b) = Inr (Some (Num a))"
      by (simp add: video_to_data_time_anchors [OF ne])
  }
qed

theorem anchor_round_trip_witness:
  "(10, 1) \<in> set three_anchors \<and>
   data_to_video_time (new_mapper (anchors_file three_anchors)) (Num 10) = Inr (Some (Num 1)) \<and>
   video_to_data_time (new_mapper (anchors_file three_anchors)) (Num 1) = Inr (Some (Num 10))"
proof -
  have h: "(10, 1) \<in> set three_anchors" by (simp add: three_anchors_def)
  have u1: "\<forall>b'. (10, b') \<in> set three_anchors \<longrightarrow> b' = 1"
    by (simp add: three_anchors_def)
  have u2: "\<forall>a'. (a', 1) \<in> set three_anchors \<longrightarrow> a' = 10"
    by (simp add: three_anchors_def)
  note t = anchor_round_trip [OF h]
  have x: "data_to_video_time (new_mapper (anchors_file three_anchors)) (Num 10)
     = Inr (Some (Num 1))"
    using t [THEN conjunct1] u1 by (rule mp)
  have y: "video_to_data_time (new_mapper (anchors_file three_anchors)) (Num 1)
     = Inr (Some (Num 10))"
    using t [THEN conjunct2] u2 by (rule mp)
  show ?thesis
    by (intro conjI) (fact h x y)+
qed



subsection \<open>Timeline mapper: loading\<close>







end
